theory Spec2Isabelle
  imports Complex_Main
begin

section \<open>Samarium fluorescence: the spectral-convolution pipeline\<close>

text \<open>
  The notebook \<^verbatim>\<open>Samarium_Fluorescence.ipynb\<close> computes a fluorescence scattering rate
  from a laser lineshape, an atomic lineshape and an inhomogeneous distribution of atoms.
  The embedding below follows its computational cells.

  Numbers: the notebook computes in IEEE double precision; the embedding computes in the
  real numbers, with \<open>pi\<close> for \<^verbatim>\<open>np.pi\<close>. Rounding and overflow are therefore not part of
  the model. What is part of the model:
  \<^item> every place where Python or numpy raises is an \<open>Inl\<close> branch of a sum type;
  \<^item> a numpy division by zero on an array does not raise, it yields \<^verbatim>\<open>inf\<close> or \<^verbatim>\<open>nan\<close>,
    and these propagate through every later product and sum; such a non-finite value is
    \<open>None\<close> in a \<open>real option\<close>.
\<close>

datatype error = ZeroDivisionError | ValueError

subsection \<open>Cell 2: the Lorentzian\<close>

text \<open>
  \<^verbatim>\<open>def Lorentz(omega,omega_0,Gamma):
      return 1/(np.pi * (Gamma/2)) * 1 / (1 + ((omega - omega_0)/(Gamma/2))**2)\<close>

  The notebook calls it with an array \<open>omega\<close> and Python floats \<open>omega_0\<close>, \<open>Gamma\<close>.
  The prefactor \<^verbatim>\<open>1/(np.pi * (Gamma/2))\<close> is a division of Python floats and is evaluated
  first: it raises \<^verbatim>\<open>ZeroDivisionError\<close> when \<open>Gamma\<close> is zero. The rest is element-wise;
  its denominator \<open>1 + (\<dots>)\<^sup>2\<close> is at least one.
\<close>

definition Lorentz :: "real list \<Rightarrow> real \<Rightarrow> real \<Rightarrow> error + real list" where
  "Lorentz omega omega_0 Gamma =
     (if pi * (Gamma / 2) = 0 then Inl ZeroDivisionError
      else Inr (map (\<lambda>w. 1 / (pi * (Gamma / 2)) * 1 / (1 + ((w - omega_0) / (Gamma / 2))\<^sup>2))
                    omega))"

subsection \<open>The numpy array constructors used by the grid builder\<close>

text \<open>
  \<^verbatim>\<open>np.arange(start, stop, step)\<close> has \<open>\<lceil>(stop - start) / step\<rceil>\<close> elements (none when that
  is not positive), the \<open>i\<close>-th being \<open>start + i * step\<close>. The cell passes a numpy scalar
  as the step, so a zero step does not raise on the division: the quotient is \<^verbatim>\<open>nan\<close> or
  \<^verbatim>\<open>inf\<close> and numpy raises \<^verbatim>\<open>ValueError\<close> on turning it into a length.

  The quotient is taken here in the reals. In double precision it is rounded, and where
  the real quotient is an integer or just below one the rounded quotient can lie above it:
  the array then has one element more, and its last element reaches \<open>stop\<close>. What is proved
  below about an axis in general concerns its step, its first element and its order, and
  never where it ends; a statement that depends on the number of samples is to be read at
  the input it names.
\<close>

definition arange :: "real \<Rightarrow> real \<Rightarrow> real \<Rightarrow> error + real list" where
  "arange start stop step =
     (if step = 0 then Inl ValueError
      else Inr (map (\<lambda>i. start + real i * step) [0..<nat \<lceil>(stop - start) / step\<rceil>]))"

text \<open>
  \<^verbatim>\<open>np.linspace(start, stop, num)\<close> (with the default \<^verbatim>\<open>endpoint=True\<close>): a negative
  \<open>num\<close> raises \<^verbatim>\<open>ValueError\<close>; otherwise, with \<^verbatim>\<open>div = num - 1\<close> and
  \<^verbatim>\<open>delta = stop - start\<close>, the samples are \<^verbatim>\<open>arange(0, num) * (delta / div) + start\<close>
  when \<open>div > 0\<close> and \<^verbatim>\<open>arange(0, num) * delta + start\<close> otherwise, and for \<open>num > 1\<close> the
  last sample is overwritten with \<open>stop\<close>.
\<close>

definition linspace :: "real \<Rightarrow> real \<Rightarrow> int \<Rightarrow> error + real list" where
  "linspace start stop num =
     (if num < 0 then Inl ValueError
      else
        let n = nat num;
            dv = num - 1;
            delta = stop - start;
            y = (if dv > 0
                 then map (\<lambda>i. real i * (delta / real_of_int dv) + start) [0..<n]
                 else map (\<lambda>i. real i * delta + start) [0..<n])
        in Inr (if num > 1 then y[n - 1 := stop] else y))"

subsection \<open>\<^verbatim>\<open>np.convolve(a, v, 'full')\<close>\<close>

text \<open>
  numpy's \<^verbatim>\<open>convolve\<close> swaps its arguments when the second is longer, raises
  \<^verbatim>\<open>ValueError\<close> when either is empty, and returns
  \<^verbatim>\<open>correlate(a, v[::-1], 'full')\<close>. The correlation of \<open>a\<close> (length \<open>n1\<close>) with a
  kernel \<open>w\<close> (length \<open>n2 \<le> n1\<close>) is computed in three runs of dot products: \<open>n2 - 1\<close>
  growing windows at the left edge, \<open>n1 - n2 + 1\<close> full windows, \<open>n2 - 1\<close> shrinking
  windows at the right edge.
\<close>

definition dot :: "real list \<Rightarrow> real list \<Rightarrow> real" where
  "dot xs ys = sum_list (map2 (*) xs ys)"

definition correlate_full :: "real list \<Rightarrow> real list \<Rightarrow> real list" where
  "correlate_full a w =
     (let n1 = length a; n2 = length w
      in map (\<lambda>i. dot (take (i + 1) a) (drop (n2 - 1 - i) w)) [0..<n2 - 1]
         @ map (\<lambda>i. dot (take n2 (drop i a)) w) [0..<n1 - n2 + 1]
         @ map (\<lambda>i. dot (drop (n1 - n2 + 1 + i) a) (take (n2 - 1 - i) w)) [0..<n2 - 1])"

definition convolve :: "real list \<Rightarrow> real list \<Rightarrow> error + real list" where
  "convolve a v =
     (let (a', v') = (if length v > length a then (v, a) else (a, v))
      in if length a' = 0 then Inl ValueError
         else if length v' = 0 then Inl ValueError
         else Inr (correlate_full a' (rev v')))"

subsection \<open>Element-wise products and sums of arrays\<close>

text \<open>
  The product of two one-dimensional arrays is element-wise when the lengths agree; an
  array of length one is broadcast; any other pair of lengths raises \<^verbatim>\<open>ValueError\<close>.
  The right operand may hold non-finite values.
\<close>

definition array_mul :: "real list \<Rightarrow> real option list \<Rightarrow> error + real option list" where
  "array_mul xs ys =
     (if length xs = length ys then Inr (map2 (\<lambda>x y. map_option ((*) x) y) xs ys)
      else if length xs = 1 then Inr (map (\<lambda>y. map_option ((*) (hd xs)) y) ys)
      else if length ys = 1 then Inr (map (\<lambda>x. map_option ((*) x) (hd ys)) xs)
      else Inl ValueError)"

fun np_sum :: "real option list \<Rightarrow> real option" where
  "np_sum [] = Some 0"
| "np_sum (x # xs) =
     (case x of None \<Rightarrow> None | Some v \<Rightarrow> map_option ((+) v) (np_sum xs))"

subsection \<open>Cell 9: the pipeline\<close>

text \<open>
  \<^verbatim>\<open>larger_line = np.max((Gamma_L,Gamma_H))
  d_omega = larger_line / 100001
  omega = np.arange(-3*Gamma_L/2, 3*Gamma_L/2, d_omega)
  omega_0 = np.arange(-3*Gamma_H/2, 3*Gamma_H/2, d_omega)
  omega_tot = np.linspace(-3*Gamma_L/2 - 3*Gamma_H/2, 3*Gamma_L/2 + 3*Gamma_H/2,
                          num=(len(omega) + len(omega_0) - 1))\<close>
\<close>

record grid =
  d_omega :: real
  omega :: "real list"
  omega_0 :: "real list"
  omega_tot :: "real list"

definition grid_builder :: "real \<Rightarrow> real \<Rightarrow> error + grid" where
  "grid_builder Gamma_L Gamma_H =
     (let larger_line = max Gamma_L Gamma_H;
          d = larger_line / 100001
      in case arange (- 3 * Gamma_L / 2) (3 * Gamma_L / 2) d of
           Inl e \<Rightarrow> Inl e
         | Inr om \<Rightarrow>
             (case arange (- 3 * Gamma_H / 2) (3 * Gamma_H / 2) d of
                Inl e \<Rightarrow> Inl e
              | Inr om0 \<Rightarrow>
                  (case linspace (- 3 * Gamma_L / 2 - 3 * Gamma_H / 2)
                                 (3 * Gamma_L / 2 + 3 * Gamma_H / 2)
                                 (int (length om) + int (length om0) - 1) of
                     Inl e \<Rightarrow> Inl e
                   | Inr omt \<Rightarrow>
                       Inr \<lparr>d_omega = d, omega = om, omega_0 = om0, omega_tot = omt\<rparr>)))"

text \<open>
  \<^verbatim>\<open>Phi_omega = Phi * Lorentz(omega,0.0,Gamma_L)
  sigma_omega_0 = sigma * (np.pi * Gamma_H / 2.0) * Lorentz(omega_0,0.0,Gamma_H)\<close>
\<close>

definition Phi_omega :: "real \<Rightarrow> real list \<Rightarrow> real \<Rightarrow> error + real list" where
  "Phi_omega Phi om Gamma_L =
     (case Lorentz om 0 Gamma_L of Inl e \<Rightarrow> Inl e | Inr l \<Rightarrow> Inr (map ((*) Phi) l))"

definition sigma_omega_0 :: "real \<Rightarrow> real list \<Rightarrow> real \<Rightarrow> error + real list" where
  "sigma_omega_0 sigma om0 Gamma_H =
     (case Lorentz om0 0 Gamma_H of
        Inl e \<Rightarrow> Inl e
      | Inr l \<Rightarrow> Inr (map ((*) (sigma * (pi * Gamma_H / 2))) l))"

text \<open>
  \<^verbatim>\<open>R_omega_0 = np.convolve(Phi_omega, sigma_omega_0, 'full') * d_omega\<close>
\<close>

definition R_omega_0 :: "real list \<Rightarrow> real list \<Rightarrow> real \<Rightarrow> error + real list" where
  "R_omega_0 Phi_om sigma_om0 d =
     (case convolve Phi_om sigma_om0 of
        Inl e \<Rightarrow> Inl e
      | Inr c \<Rightarrow> Inr (map (\<lambda>x. x * d) c))"

text \<open>
  \<^verbatim>\<open>N_Inhom_omega_0 = N_Inhom * Lorentz(omega_tot,0.0,Gamma_In)
  Frac_omega_0 = R_omega_0 / (Gamma_Ex + 2 * R_omega_0)\<close>

  The division is numpy's: a zero denominator gives a non-finite entry, not an exception.
\<close>

definition N_Inhom_omega_0 :: "real \<Rightarrow> real list \<Rightarrow> real \<Rightarrow> error + real list" where
  "N_Inhom_omega_0 N_Inhom omt Gamma_In =
     (case Lorentz omt 0 Gamma_In of Inl e \<Rightarrow> Inl e | Inr l \<Rightarrow> Inr (map ((*) N_Inhom) l))"

definition Frac_bin :: "real \<Rightarrow> real \<Rightarrow> real option" where
  "Frac_bin Gamma_Ex R = (if Gamma_Ex + 2 * R = 0 then None else Some (R / (Gamma_Ex + 2 * R)))"

definition Frac_omega_0 :: "real \<Rightarrow> real list \<Rightarrow> real option list" where
  "Frac_omega_0 Gamma_Ex R = map (Frac_bin Gamma_Ex) R"

text \<open>
  \<^verbatim>\<open>Gamma_Sc = Gamma_Ex * np.sum(N_Inhom_omega_0 * d_omega * Frac_omega_0)\<close>
\<close>

definition Gamma_Sc :: "real \<Rightarrow> real list \<Rightarrow> real \<Rightarrow> real option list \<Rightarrow> error + real option"
  where
  "Gamma_Sc Gamma_Ex N_om d Frac =
     (case array_mul (map (\<lambda>x. x * d) N_om) Frac of
        Inl e \<Rightarrow> Inl e
      | Inr p \<Rightarrow> Inr (map_option ((*) Gamma_Ex) (np_sum p)))"

text \<open>
  The cell as a whole, from its seven free variables to the scattering rate. The Rabi
  frequency and the printed diagnostics lie between these statements; they read
  \<open>R_omega_0\<close> and \<open>N_Inhom_omega_0\<close>, raise on no input that reaches them, and do not
  enter \<open>Gamma_Sc\<close>.
\<close>

definition fluorescence ::
  "real \<Rightarrow> real \<Rightarrow> real \<Rightarrow> real \<Rightarrow> real \<Rightarrow> real \<Rightarrow> real \<Rightarrow> error + real option" where
  "fluorescence Gamma_L Gamma_Ex Gamma_H Gamma_In Phi sigma N_Inhom =
     (case grid_builder Gamma_L Gamma_H of
        Inl e \<Rightarrow> Inl e
      | Inr g \<Rightarrow>
     (case Phi_omega Phi (omega g) Gamma_L of
        Inl e \<Rightarrow> Inl e
      | Inr Phi_om \<Rightarrow>
     (case sigma_omega_0 sigma (omega_0 g) Gamma_H of
        Inl e \<Rightarrow> Inl e
      | Inr sigma_om0 \<Rightarrow>
     (case R_omega_0 Phi_om sigma_om0 (d_omega g) of
        Inl e \<Rightarrow> Inl e
      | Inr R \<Rightarrow>
     (case N_Inhom_omega_0 N_Inhom (omega_tot g) Gamma_In of
        Inl e \<Rightarrow> Inl e
      | Inr N_om \<Rightarrow> Gamma_Sc Gamma_Ex N_om (d_omega g) (Frac_omega_0 Gamma_Ex R))))))"

section \<open>The Lorentzian evaluator\<close>

lemma Lorentz_term:
  fixes g :: real
  assumes "g \<noteq> 0"
  shows "1 / (pi * g) * 1 / (1 + (d / g)\<^sup>2) = (1 / pi) * g / (d\<^sup>2 + g\<^sup>2)"
proof -
  have nz: "d\<^sup>2 + g\<^sup>2 \<noteq> 0"
    using assms by simp
  have "1 + (d / g)\<^sup>2 = (d\<^sup>2 + g\<^sup>2) / g\<^sup>2"
    using assms by (simp add: power_divide add_divide_distrib)
  then show ?thesis
    using assms nz by (simp add: power2_eq_square)
qed

text \<open>
  C8. For a positive width \<open>Gamma\<close>, every centre \<open>x0\<close> and every array of offsets,
  \<open>Lorentz\<close> returns, entry by entry, the normalised Lorentzian density
  \<open>(1/\<pi>) (\<Gamma>/2) / ((x - x0)\<^sup>2 + (\<Gamma>/2)\<^sup>2)\<close>.
\<close>

theorem Lorentz_normalised_density:
  assumes "0 < Gamma"
  shows "Lorentz xs x0 Gamma
         = Inr (map (\<lambda>x. (1 / pi) * (Gamma / 2) / ((x - x0)\<^sup>2 + (Gamma / 2)\<^sup>2)) xs)"
proof -
  have g: "Gamma / 2 \<noteq> 0" using assms by simp
  then have p: "pi * (Gamma / 2) = 0 \<longleftrightarrow> False" by simp
  show ?thesis
    unfolding Lorentz_def by (simp only: p if_False Lorentz_term [OF g])
qed

theorem Lorentz_normalised_density_witness:
  "(0::real) < 2 \<and> Lorentz [0, 1] 0 2 = Inr [1 / pi, 1 / (2 * pi)]"
  using Lorentz_normalised_density [of 2 "[0, 1]" 0] by simp

section \<open>The saturation model\<close>

lemma sat_form:
  fixes R :: real
  assumes "0 < G"
  shows "(R / G) / (1 + 2 * R / G) = R / (G + 2 * R)"
proof -
  have "1 + 2 * R / G = (G + 2 * R) / G"
    using assms by (simp add: add_divide_distrib)
  then show ?thesis
    using assms by simp
qed

lemma sat_nonneg:
  fixes R :: real
  assumes "0 < G" "0 \<le> R"
  shows "0 \<le> R / (G + 2 * R)"
  using assms by simp

lemma sat_below_half:
  fixes R :: real
  assumes "0 < G" "0 \<le> R"
  shows "R / (G + 2 * R) < 1 / 2"
proof -
  have "0 < G + 2 * R" using assms by simp
  then show ?thesis using assms by (simp add: field_simps)
qed

lemma sat_strict_mono:
  fixes R :: real
  assumes "0 < G" "0 \<le> R" "R < R'"
  shows "R / (G + 2 * R) < R' / (G + 2 * R')"
proof -
  have p: "0 < G + 2 * R" "0 < G + 2 * R'" using assms by simp_all
  have "R * (G + 2 * R') < R' * (G + 2 * R)"
    using assms by (simp add: algebra_simps)
  then show ?thesis
    using p by (simp add: divide_simps mult.commute)
qed

lemma Frac_bin_pos:
  assumes "0 < G" "0 \<le> R"
  shows "Frac_bin G R = Some (R / (G + 2 * R))"
proof -
  have "0 < G + 2 * R" using assms by simp
  then show ?thesis by (simp add: Frac_bin_def)
qed

text \<open>
  C3. For \<open>Gamma_Ex > 0\<close> and a rate \<open>R \<ge> 0\<close>, the excitation fraction the code computes
  for a bin, \<open>R / (Gamma_Ex + 2 R)\<close>, is defined, equals
  \<open>(R / Gamma_Ex) / (1 + 2 R / Gamma_Ex)\<close>, lies in \<open>[0, 1/2)\<close>, and is strictly smaller
  than the fraction at any larger rate.
\<close>

theorem saturation_fraction:
  assumes "0 < Gamma_Ex" and "0 \<le> R"
  shows "Frac_bin Gamma_Ex R = Some ((R / Gamma_Ex) / (1 + 2 * R / Gamma_Ex))
       \<and> 0 \<le> (R / Gamma_Ex) / (1 + 2 * R / Gamma_Ex)
       \<and> (R / Gamma_Ex) / (1 + 2 * R / Gamma_Ex) < 1 / 2
       \<and> (\<forall>R'. R < R' \<longrightarrow>
            Frac_bin Gamma_Ex R' = Some ((R' / Gamma_Ex) / (1 + 2 * R' / Gamma_Ex))
          \<and> (R / Gamma_Ex) / (1 + 2 * R / Gamma_Ex)
              < (R' / Gamma_Ex) / (1 + 2 * R' / Gamma_Ex))"
proof -
  have "\<And>R'. R < R' \<Longrightarrow> 0 \<le> R'" using assms(2) by simp
  then show ?thesis
    using assms
    by (simp only: sat_form [OF assms(1)])
       (simp add: Frac_bin_pos sat_nonneg sat_below_half sat_strict_mono)
qed

theorem saturation_fraction_witness:
  "Frac_bin 1 1 = Some (1 / 3) \<and> Frac_bin 1 2 = Some (2 / 5) \<and> (1 / 3 :: real) < 2 / 5"
  using saturation_fraction [of 1 1] by simp

section \<open>The grid builder\<close>

subsection \<open>The array constructors\<close>

lemma arange_Inr:
  assumes "s \<noteq> 0"
  shows "arange a b s = Inr (map (\<lambda>i. a + real i * s) [0..<nat \<lceil>(b - a) / s\<rceil>])"
  using assms by (simp add: arange_def)

lemma arange_length:
  assumes "arange a b s = Inr xs"
  shows "length xs = nat \<lceil>(b - a) / s\<rceil>"
  using assms by (auto simp: arange_def split: if_splits)

lemma arange_nth:
  assumes "arange a b s = Inr xs" and "i < length xs"
  shows "xs ! i = a + real i * s"
  using assms by (auto simp: arange_def split: if_splits)

lemma axis_count:
  fixes G d :: real
  assumes "0 < d" and "0 < G"
  defines "n \<equiv> nat \<lceil>(3 * G / 2 - (- 3 * G / 2)) / d\<rceil>"
  shows "0 < n" and "(real n - 1) * d < 3 * G"
proof -
  have e: "(3 * G / 2 - (- 3 * G / 2)) / d = 3 * G / d" by simp
  have pos: "0 < 3 * G / d" using assms by simp
  then have c: "0 < \<lceil>3 * G / d\<rceil>" by (simp add: ceiling_less_iff)
  then show "0 < n" unfolding n_def e by simp
  have rn: "real n = of_int \<lceil>3 * G / d\<rceil>" unfolding n_def e using c by simp
  have "of_int \<lceil>3 * G / d\<rceil> - 1 < 3 * G / d"
    using ceiling_correct [of "3 * G / d"] by simp
  then have "real n - 1 < 3 * G / d"
    unfolding rn by simp
  then show "(real n - 1) * d < 3 * G"
    using assms(1) by (simp add: pos_less_divide_eq)
qed

lemma axis_props:
  fixes G d :: real
  assumes "0 < d" and "0 < G" and ar: "arange (- 3 * G / 2) (3 * G / 2) d = Inr xs"
  shows "xs \<noteq> []"
    and "hd xs = - 3 * G / 2"
    and "\<forall>i. Suc i < length xs \<longrightarrow> xs ! Suc i = xs ! i + d"
    and "sorted_wrt (<) xs"
proof -
  let ?n = "nat \<lceil>(3 * G / 2 - (- 3 * G / 2)) / d\<rceil>"
  have len: "length xs = ?n" using ar by (rule arange_length)
  have n: "0 < ?n"
    using axis_count(1) [OF assms(1,2)] by simp
  have nth: "\<And>i. i < length xs \<Longrightarrow> xs ! i = - 3 * G / 2 + real i * d"
    using ar by (rule arange_nth)
  show ne: "xs \<noteq> []" using len n by auto
  show "hd xs = - 3 * G / 2"
    using ne nth [of 0] by (simp add: hd_conv_nth)
  show "\<forall>i. Suc i < length xs \<longrightarrow> xs ! Suc i = xs ! i + d"
  proof (intro allI impI)
    fix i assume i: "Suc i < length xs"
    then have "xs ! Suc i = - 3 * G / 2 + real (Suc i) * d" and "xs ! i = - 3 * G / 2 + real i * d"
      using nth by simp_all
    then show "xs ! Suc i = xs ! i + d" by (simp add: algebra_simps)
  qed
  show "sorted_wrt (<) xs"
    unfolding sorted_wrt_iff_nth_less using nth assms(1) by simp
qed

subsection \<open>The three axes\<close>

lemma grid_builder_parts:
  assumes "grid_builder Gamma_L Gamma_H = Inr g"
  shows "d_omega g = max Gamma_L Gamma_H / 100001"
    and "arange (- 3 * Gamma_L / 2) (3 * Gamma_L / 2) (d_omega g) = Inr (omega g)"
    and "arange (- 3 * Gamma_H / 2) (3 * Gamma_H / 2) (d_omega g) = Inr (omega_0 g)"
    and "linspace (- 3 * Gamma_L / 2 - 3 * Gamma_H / 2) (3 * Gamma_L / 2 + 3 * Gamma_H / 2)
           (int (length (omega g)) + int (length (omega_0 g)) - 1) = Inr (omega_tot g)"
  using assms by (auto simp: grid_builder_def Let_def split: sum.splits)

lemma grid_builder_zero_step:
  assumes "max Gamma_L Gamma_H = 0"
  shows "grid_builder Gamma_L Gamma_H = Inl ValueError"
  using assms by (simp add: grid_builder_def arange_def)

lemma widest_axis_count:
  fixes G :: real
  assumes "G \<noteq> 0"
  shows "nat \<lceil>(3 * G / 2 - (- 3 * G / 2)) / (G / 100001)\<rceil> = 300003"
proof -
  have "(3 * G / 2 - (- 3 * G / 2)) / (G / 100001) = 300003"
    using assms by simp
  then show ?thesis by simp
qed

lemma grid_builder_total:
  assumes "max Gamma_L Gamma_H \<noteq> 0"
  shows "\<exists>g. grid_builder Gamma_L Gamma_H = Inr g"
proof -
  let ?d = "max Gamma_L Gamma_H / 100001"
  have d: "?d \<noteq> 0" using assms by simp
  obtain om where om: "arange (- 3 * Gamma_L / 2) (3 * Gamma_L / 2) ?d = Inr om"
    using arange_Inr [OF d] by blast
  obtain om0 where om0: "arange (- 3 * Gamma_H / 2) (3 * Gamma_H / 2) ?d = Inr om0"
    using arange_Inr [OF d] by blast
  have "\<not> int (length om) + int (length om0) - 1 < 0"
  proof (cases "Gamma_L \<le> Gamma_H")
    case True
    then have "max Gamma_L Gamma_H = Gamma_H" and "Gamma_H \<noteq> 0" using assms by auto
    then have "length om0 = 300003"
      using arange_length [OF om0] widest_axis_count [of Gamma_H] by simp
    then show ?thesis by simp
  next
    case False
    then have "max Gamma_L Gamma_H = Gamma_L" and "Gamma_L \<noteq> 0" using assms by auto
    then have "length om = 300003"
      using arange_length [OF om] widest_axis_count [of Gamma_L] by simp
    then show ?thesis by simp
  qed
  then obtain omt where
    "linspace (- 3 * Gamma_L / 2 - 3 * Gamma_H / 2) (3 * Gamma_L / 2 + 3 * Gamma_H / 2)
       (int (length om) + int (length om0) - 1) = Inr omt"
    by (simp add: linspace_def Let_def)
  then show ?thesis
    using om om0 by (simp add: grid_builder_def Let_def)
qed

lemma linspace_length:
  assumes "linspace a b num = Inr ys"
  shows "length ys = nat num"
  using assms by (auto simp: linspace_def Let_def split: if_splits)

lemma linspace_nth:
  assumes "linspace a b num = Inr ys" and "int i < num - 1"
  shows "ys ! i = real i * ((b - a) / real_of_int (num - 1)) + a"
  using assms by (auto simp: linspace_def Let_def split: if_splits)

lemma unit_grid:
  shows "\<not> isl (grid_builder 1 1)"
    and "d_omega (projr (grid_builder 1 1)) = 1 / 100001"
    and "length (omega (projr (grid_builder 1 1))) = 300003"
    and "length (omega_0 (projr (grid_builder 1 1))) = 300003"
    and "\<And>i. i < 300003 \<Longrightarrow> omega (projr (grid_builder 1 1)) ! i = - 3 / 2 + real i / 100001"
    and "\<And>i. i < 300003 \<Longrightarrow> omega_0 (projr (grid_builder 1 1)) ! i = - 3 / 2 + real i / 100001"
    and "\<And>i. i < 600004 \<Longrightarrow> omega_tot (projr (grid_builder 1 1)) ! i = real i * (6 / 600004) - 3"
proof -
  obtain g where g: "grid_builder 1 1 = Inr g"
    using grid_builder_total [of 1 1] by auto
  have pg: "projr (grid_builder 1 1) = g" using g by simp
  note p = grid_builder_parts [OF g]
  show "\<not> isl (grid_builder 1 1)" using g by simp
  have d: "d_omega g = 1 / 100001" using p(1) by simp
  then show "d_omega (projr (grid_builder 1 1)) = 1 / 100001" unfolding pg .
  have l1: "length (omega g) = 300003"
    using arange_length [OF p(2)] widest_axis_count [of 1] unfolding d by simp
  have l2: "length (omega_0 g) = 300003"
    using arange_length [OF p(3)] widest_axis_count [of 1] unfolding d by simp
  show "length (omega (projr (grid_builder 1 1))) = 300003"
    and "length (omega_0 (projr (grid_builder 1 1))) = 300003"
    unfolding pg using l1 l2 by simp_all
  show "\<And>i. i < 300003 \<Longrightarrow> omega (projr (grid_builder 1 1)) ! i = - 3 / 2 + real i / 100001"
    unfolding pg using arange_nth [OF p(2)] l1 d by simp
  show "\<And>i. i < 300003 \<Longrightarrow> omega_0 (projr (grid_builder 1 1)) ! i = - 3 / 2 + real i / 100001"
    unfolding pg using arange_nth [OF p(3)] l2 d by simp
  show "\<And>i. i < 600004 \<Longrightarrow> omega_tot (projr (grid_builder 1 1)) ! i = real i * (6 / 600004) - 3"
    unfolding pg using linspace_nth [OF p(4)] unfolding l1 l2 by simp
qed

text \<open>
  C1. The laser and the atomic axis have the step \<open>d_omega\<close>; the combined axis does not.
  \<open>linspace\<close> spreads \<open>len(omega) + len(omega_0) - 1\<close> samples over the whole range
  \<open>3 Gamma_L + 3 Gamma_H\<close>, which the two \<open>arange\<close> axes stop short of, so its step is
  larger than \<open>d_omega\<close>: the sample at index 1 lies strictly above
  (laser-axis minimum) + (atomic-axis minimum) + \<open>1 * d_omega\<close>, the value the alignment
  invariant gives it. With the lengths of the axes taken in the reals this is so for all
  positive linewidths. The named input is \<open>Gamma_L = Gamma_H = 1\<close>, where both axes have
  300003 samples in double precision as in the reals: the sample is \<open>-3 + 6/600004\<close> and
  the aligned value is \<open>-3 + 1/100001\<close>.
\<close>

theorem combined_axis_misaligned:
  assumes "0 < Gamma_L" and "0 < Gamma_H"
  shows "\<exists>g. grid_builder Gamma_L Gamma_H = Inr g
           \<and> 1 < length (omega_tot g)
           \<and> hd (omega g) + hd (omega_0 g) + 1 * d_omega g < omega_tot g ! 1"
proof -
  have "max Gamma_L Gamma_H \<noteq> 0" using assms by auto
  then obtain g where g: "grid_builder Gamma_L Gamma_H = Inr g"
    using grid_builder_total by blast
  note p = grid_builder_parts [OF g]
  let ?d = "d_omega g"
  let ?n1 = "length (omega g)" and ?n2 = "length (omega_0 g)"
  have d: "0 < ?d" unfolding p(1) using assms by auto
  have n1: "0 < ?n1" "(real ?n1 - 1) * ?d < 3 * Gamma_L"
    using axis_count(1,2) [OF d assms(1)] arange_length [OF p(2)] by simp_all
  have n2: "0 < ?n2" "(real ?n2 - 1) * ?d < 3 * Gamma_H"
    using axis_count(1,2) [OF d assms(2)] arange_length [OF p(3)] by simp_all
  have "?n1 = 300003 \<or> ?n2 = 300003"
  proof (cases "Gamma_L \<le> Gamma_H")
    case True
    then have dH: "?d = Gamma_H / 100001" unfolding p(1) by (simp add: max_def)
    have "Gamma_H \<noteq> 0" using assms(2) by simp
    then have "?n2 = 300003"
      using arange_length [OF p(3), unfolded dH] widest_axis_count [of Gamma_H] by linarith
    then show ?thesis by simp
  next
    case False
    then have dL: "?d = Gamma_L / 100001" unfolding p(1) by (simp add: max_def)
    have "Gamma_L \<noteq> 0" using assms(1) by simp
    then have "?n1 = 300003"
      using arange_length [OF p(2), unfolded dL] widest_axis_count [of Gamma_L] by linarith
    then show ?thesis by simp
  qed
  then have big: "300004 \<le> ?n1 + ?n2" using n1(1) n2(1) by linarith
  let ?num = "int ?n1 + int ?n2 - 1"
  have len: "length (omega_tot g) = nat ?num" using p(4) by (rule linspace_length)
  then have l1: "1 < length (omega_tot g)" using big by linarith
  have "int 1 < ?num - 1" using big by linarith
  then have nth: "omega_tot g ! 1
      = real 1 * ((3 * Gamma_L / 2 + 3 * Gamma_H / 2 - (- 3 * Gamma_L / 2 - 3 * Gamma_H / 2))
                  / real_of_int (?num - 1))
        + (- 3 * Gamma_L / 2 - 3 * Gamma_H / 2)"
    by (rule linspace_nth [OF p(4)])
  have m: "real_of_int (?num - 1) = (real ?n1 - 1) + (real ?n2 - 1)" by simp
  have mpos: "0 < real_of_int (?num - 1)" using big by simp
  have "real_of_int (?num - 1) * ?d < 3 * Gamma_L + 3 * Gamma_H"
    unfolding m using n1(2) n2(2) by (simp add: algebra_simps)
  then have step: "?d < (3 * Gamma_L + 3 * Gamma_H) / real_of_int (?num - 1)"
    using mpos by (simp add: pos_less_divide_eq mult.commute)
  have h: "hd (omega g) = - 3 * Gamma_L / 2" "hd (omega_0 g) = - 3 * Gamma_H / 2"
    using axis_props(2) [OF d assms(1) p(2)] axis_props(2) [OF d assms(2) p(3)] by simp_all
  have "hd (omega g) + hd (omega_0 g) + 1 * ?d < omega_tot g ! 1"
    unfolding nth h using step by simp
  then show ?thesis using g l1 by blast
qed

theorem combined_axis_misaligned_witness:
  "\<not> isl (grid_builder 1 1)
   \<and> omega_tot (projr (grid_builder 1 1)) ! 1 = - 3 + 6 / 600004
   \<and> hd (omega (projr (grid_builder 1 1))) + hd (omega_0 (projr (grid_builder 1 1)))
       + 1 * d_omega (projr (grid_builder 1 1)) = - 3 + 1 / 100001
   \<and> hd (omega (projr (grid_builder 1 1))) + hd (omega_0 (projr (grid_builder 1 1)))
       + 1 * d_omega (projr (grid_builder 1 1)) < omega_tot (projr (grid_builder 1 1)) ! 1"
proof -
  obtain g where g: "grid_builder 1 1 = Inr g"
    and lt: "hd (omega g) + hd (omega_0 g) + 1 * d_omega g < omega_tot g ! 1"
    using combined_axis_misaligned [of 1 1] by auto
  have pg: "projr (grid_builder 1 1) = g" using g by simp
  have ne: "omega g \<noteq> []" "omega_0 g \<noteq> []"
    using unit_grid(3,4) unfolding pg by auto
  have "hd (omega g) = - 3 / 2" and "hd (omega_0 g) = - 3 / 2"
    using unit_grid(5) [of 0] unit_grid(6) [of 0] ne unfolding pg by (simp_all add: hd_conv_nth)
  moreover have "d_omega g = 1 / 100001" and "omega_tot g ! 1 = - 3 + 6 / 600004"
    using unit_grid(2) unit_grid(7) [of 1] unfolding pg by simp_all
  ultimately show ?thesis
    unfolding pg using g lt by simp
qed

text \<open>
  C4, as stated, fails at \<open>Gamma_L = Gamma_H = 1\<close>: the step is not
  \<open>max(Gamma_L, Gamma_H) / 100000\<close>, and the last element of the laser axis, sample
  300002 of 300003, is \<open>1.5 - 1/100001\<close> and not \<open>1.5 Gamma_L\<close>.
\<close>

theorem axes_claimed_step_and_end_counterexample:
  "\<not> isl (grid_builder 1 1)
   \<and> d_omega (projr (grid_builder 1 1)) \<noteq> max 1 1 / 100000
   \<and> last (omega (projr (grid_builder 1 1))) \<noteq> 3 / 2"
proof -
  have ne: "omega (projr (grid_builder 1 1)) \<noteq> []" using unit_grid(3) by auto
  have "last (omega (projr (grid_builder 1 1))) = - 3 / 2 + 300002 / 100001"
    using unit_grid(5) [of 300002] unit_grid(3) ne by (simp add: last_conv_nth)
  then show ?thesis using unit_grid(1,2) by simp
qed

text \<open>
  C4, amended. For positive \<open>Gamma_L\<close> and \<open>Gamma_H\<close> the grid builder returns a grid
  whose step is \<open>max(Gamma_L, Gamma_H) / 100001\<close>; the laser axis is non-empty, strictly
  increasing, uniformly spaced with that step, and starts at \<open>-1.5 Gamma_L\<close>; the atomic
  axis likewise, starting at \<open>-1.5 Gamma_H\<close>. Nothing is said of where an axis ends.
\<close>

theorem axes_construction:
  assumes "0 < Gamma_L" and "0 < Gamma_H"
  shows "\<exists>g. grid_builder Gamma_L Gamma_H = Inr g
     \<and> d_omega g = max Gamma_L Gamma_H / 100001
     \<and> omega g \<noteq> [] \<and> hd (omega g) = - 3 * Gamma_L / 2
     \<and> sorted_wrt (<) (omega g)
     \<and> (\<forall>i. Suc i < length (omega g) \<longrightarrow> omega g ! Suc i = omega g ! i + d_omega g)
     \<and> omega_0 g \<noteq> [] \<and> hd (omega_0 g) = - 3 * Gamma_H / 2
     \<and> sorted_wrt (<) (omega_0 g)
     \<and> (\<forall>i. Suc i < length (omega_0 g) \<longrightarrow> omega_0 g ! Suc i = omega_0 g ! i + d_omega g)"
proof -
  have "max Gamma_L Gamma_H \<noteq> 0" using assms by auto
  then obtain g where g: "grid_builder Gamma_L Gamma_H = Inr g"
    using grid_builder_total by blast
  note p = grid_builder_parts [OF g]
  have d: "0 < d_omega g" unfolding p(1) using assms by auto
  note a = axis_props [OF d assms(1) p(2)]
  note b = axis_props [OF d assms(2) p(3)]
  show ?thesis
    using g p(1) a b by blast
qed

theorem axes_construction_witness:
  "\<not> isl (grid_builder 1 1)
   \<and> d_omega (projr (grid_builder 1 1)) = 1 / 100001
   \<and> hd (omega (projr (grid_builder 1 1))) = - 3 / 2
   \<and> omega (projr (grid_builder 1 1)) ! Suc 0 = omega (projr (grid_builder 1 1)) ! 0 + 1 / 100001
   \<and> hd (omega_0 (projr (grid_builder 1 1))) = - 3 / 2"
proof -
  obtain g where g: "grid_builder 1 1 = Inr g"
    and s: "\<forall>i. Suc i < length (omega g) \<longrightarrow> omega g ! Suc i = omega g ! i + d_omega g"
    and h: "hd (omega g) = - 3 * 1 / 2"
    and h0: "hd (omega_0 g) = - 3 * 1 / 2"
    and d: "d_omega g = max 1 1 / 100001"
    using axes_construction [of 1 1] by auto
  have pg: "projr (grid_builder 1 1) = g" using g by simp
  have "Suc 0 < length (omega g)" using unit_grid(3) unfolding pg by simp
  then have "omega g ! Suc 0 = omega g ! 0 + d_omega g" using s by blast
  then show ?thesis unfolding pg using g h h0 d by simp
qed

section \<open>The convolution engine\<close>

subsection \<open>Dot products of windows\<close>

lemma dot_sum_nth:
  "dot xs ys = (\<Sum>t<min (length xs) (length ys). xs ! t * ys ! t)"
proof -
  have "dot xs ys = (\<Sum>t = 0..<length (map2 (*) xs ys). map2 (*) xs ys ! t)"
    unfolding dot_def by (rule sum_list_sum_nth)
  also have "\<dots> = (\<Sum>t = 0..<min (length xs) (length ys). xs ! t * ys ! t)"
    by (rule sum.cong) simp_all
  finally show ?thesis by (simp add: atLeast0LessThan)
qed

lemma dot_window:
  assumes "s + m \<le> length a" and "o' + m \<le> length w"
  shows "dot (take m (drop s a)) (take m (drop o' w)) = (\<Sum>t<m. a ! (s + t) * w ! (o' + t))"
proof -
  have "min (length (take m (drop s a))) (length (take m (drop o' w))) = m"
    using assms by simp
  then show ?thesis
    unfolding dot_sum_nth using assms by simp
qed

lemma dot_nonneg:
  assumes "\<forall>x\<in>set xs. 0 \<le> x" and "\<forall>y\<in>set ys. 0 \<le> y"
  shows "0 \<le> dot xs ys"
  unfolding dot_def
proof (rule sum_list_nonneg)
  fix z assume "z \<in> set (map2 (*) xs ys)"
  then obtain x y where z: "z = x * y" and m: "(x, y) \<in> set (zip xs ys)" by auto
  have "x \<in> set xs" and "y \<in> set ys"
    using m by (auto dest: set_zip_leftD set_zip_rightD)
  then have "0 \<le> x" and "0 \<le> y" using assms by simp_all
  then show "0 \<le> z" unfolding z by simp
qed

lemma dot_scale_left: "dot (map ((*) c) xs) ys = c * dot xs ys"
  unfolding dot_def
  by (induction xs ys rule: list_induct2') (simp_all add: algebra_simps)

lemma dot_scale_right: "dot xs (map ((*) c) ys) = c * dot xs ys"
  unfolding dot_def
  by (induction xs ys rule: list_induct2') (simp_all add: algebra_simps)

subsection \<open>Length, sign and linearity of the correlation\<close>

lemma length_correlate_full:
  assumes "1 \<le> length w" and "length w \<le> length a"
  shows "length (correlate_full a w) = length a + length w - 1"
  using assms by (simp add: correlate_full_def Let_def)

lemma correlate_full_nonneg:
  assumes "\<forall>x\<in>set a. 0 \<le> x" and "\<forall>y\<in>set w. 0 \<le> y"
  shows "\<forall>z\<in>set (correlate_full a w). 0 \<le> z"
proof -
  have "\<And>xs ys. set xs \<subseteq> set a \<Longrightarrow> set ys \<subseteq> set w \<Longrightarrow> 0 \<le> dot xs ys"
    using assms by (intro dot_nonneg) auto
  moreover have "\<And>n m. set (take n (drop m a)) \<subseteq> set a"
    by (meson set_take_subset set_drop_subset subset_trans)
  ultimately show ?thesis
    by (auto simp: correlate_full_def Let_def set_take_subset set_drop_subset)
qed

lemma correlate_full_scale_left:
  "correlate_full (map ((*) c) a) w = map ((*) c) (correlate_full a w)"
  by (simp add: correlate_full_def Let_def take_map drop_map dot_scale_left)

lemma correlate_full_scale_right:
  "correlate_full a (map ((*) c) w) = map ((*) c) (correlate_full a w)"
  by (simp add: correlate_full_def Let_def take_map drop_map dot_scale_right)

lemma convolve_Inr:
  assumes "a \<noteq> []" and "v \<noteq> []"
  shows "convolve a v
         = Inr (if length v > length a then correlate_full v (rev a) else correlate_full a (rev v))"
  using assms by (simp add: convolve_def)

lemma convolve_Inl:
  assumes "a = [] \<or> v = []"
  shows "convolve a v = Inl ValueError"
  using assms by (auto simp: convolve_def)

lemma convolve_length:
  assumes "convolve a v = Inr c"
  shows "length c = length a + length v - 1" and "a \<noteq> []" and "v \<noteq> []"
proof -
  show ne: "a \<noteq> []" "v \<noteq> []" using assms convolve_Inl [of a v] by auto
  then have "1 \<le> length a" "1 \<le> length v" by (simp_all add: Suc_leI)
  then show "length c = length a + length v - 1"
    using assms unfolding convolve_Inr [OF ne]
    by (auto simp: length_correlate_full split: if_splits)
qed

lemma convolve_cases:
  assumes "convolve a v = Inr c"
  obtains "length a < length v" and "c = correlate_full v (rev a)"
        | "length v \<le> length a" and "c = correlate_full a (rev v)"
proof -
  have ne: "a \<noteq> []" "v \<noteq> []" using convolve_length [OF assms] by simp_all
  show thesis
  proof (cases "length a < length v")
    case True
    then have "c = correlate_full v (rev a)"
      using assms convolve_Inr [OF ne] by simp
    then show ?thesis using True that(1) by blast
  next
    case False
    then have "c = correlate_full a (rev v)"
      using assms convolve_Inr [OF ne] by simp
    then show ?thesis using False that(2) by simp
  qed
qed

lemma convolve_nonneg:
  assumes "convolve a v = Inr c" and "\<forall>x\<in>set a. 0 \<le> x" and "\<forall>y\<in>set v. 0 \<le> y"
  shows "\<forall>z\<in>set c. 0 \<le> z"
proof -
  have "\<forall>y\<in>set (rev a). 0 \<le> y" and "\<forall>y\<in>set (rev v). 0 \<le> y"
    using assms(2,3) by simp_all
  then have "\<forall>z\<in>set (correlate_full v (rev a)). 0 \<le> z"
    and "\<forall>z\<in>set (correlate_full a (rev v)). 0 \<le> z"
    using assms(2,3) correlate_full_nonneg by blast+
  then show ?thesis
    using convolve_cases [OF assms(1)] by metis
qed

lemma convolve_scale_left:
  assumes "convolve a v = Inr c"
  shows "convolve (map ((*) k) a) v = Inr (map ((*) k) c)"
proof -
  have ne: "a \<noteq> []" "v \<noteq> []" using convolve_length [OF assms] by simp_all
  then have ne': "map ((*) k) a \<noteq> []" by simp
  from assms show ?thesis
  proof (cases rule: convolve_cases)
    case 1
    then show ?thesis
      unfolding convolve_Inr [OF ne' ne(2)]
      by (simp add: rev_map correlate_full_scale_right)
  next
    case 2
    then show ?thesis
      unfolding convolve_Inr [OF ne' ne(2)]
      by (simp add: correlate_full_scale_left)
  qed
qed

subsection \<open>The entries of the correlation and of the convolution\<close>

lemma conv_window_sum:
  fixes a w :: "real list"
  assumes s: "s = k + 1 - n2" and m: "s + m = min n1 (k + 1)" and o: "o' + k = n2 - 1 + s"
  shows "(\<Sum>t<m. a ! (s + t) * w ! (o' + t))
         = (\<Sum>j<n1. if j \<le> k \<and> k - j < n2 then a ! j * w ! (n2 - 1 - (k - j)) else 0)"
proof -
  have set_eq: "{j \<in> {..<n1}. j \<le> k \<and> k - j < n2} = {0 + s..<m + s}"
    using s m by auto
  have "(\<Sum>j<n1. if j \<le> k \<and> k - j < n2 then a ! j * w ! (n2 - 1 - (k - j)) else 0)
        = (\<Sum>j\<in>{j \<in> {..<n1}. j \<le> k \<and> k - j < n2}. a ! j * w ! (n2 - 1 - (k - j)))"
    by (rule sum.inter_filter [symmetric]) simp
  also have "\<dots> = (\<Sum>t = 0..<m. a ! (t + s) * w ! (n2 - 1 - (k - (t + s))))"
    unfolding set_eq by (rule sum.shift_bounds_nat_ivl)
  also have "\<dots> = (\<Sum>t = 0..<m. a ! (s + t) * w ! (o' + t))"
  proof (rule sum.cong)
    fix t assume "t \<in> {0..<m}"
    then have "n2 - 1 - (k - (t + s)) = o' + t"
      using s m o by auto
    then show "a ! (t + s) * w ! (n2 - 1 - (k - (t + s))) = a ! (s + t) * w ! (o' + t)"
      by (simp add: add.commute)
  qed simp
  finally show ?thesis by (simp add: atLeast0LessThan)
qed

lemma nth_three_runs:
  shows "k < length A \<Longrightarrow> (A @ B @ C) ! k = A ! k"
    and "length A \<le> k \<Longrightarrow> k - length A < length B \<Longrightarrow> (A @ B @ C) ! k = B ! (k - length A)"
    and "length A + length B \<le> k \<Longrightarrow> (A @ B @ C) ! k = C ! (k - length A - length B)"
  by (auto simp: nth_append)

lemma correlate_full_nth:
  assumes w1: "1 \<le> length w" and wa: "length w \<le> length a"
    and k: "k < length a + length w - 1"
  shows "correlate_full a w ! k
         = (\<Sum>j<length a. if j \<le> k \<and> k - j < length w
                           then a ! j * w ! (length w - 1 - (k - j)) else 0)"
proof -
  let ?n1 = "length a" and ?n2 = "length w"
  consider (left) "k < ?n2 - 1" | (mid) "?n2 - 1 \<le> k" "k < ?n1" | (right) "?n1 \<le> k"
    by linarith
  then show ?thesis
  proof cases
    case left
    have "correlate_full a w ! k
          = map (\<lambda>i. dot (take (i + 1) a) (drop (?n2 - 1 - i) w)) [0..<?n2 - 1] ! k"
      unfolding correlate_full_def Let_def using left by (intro nth_three_runs(1)) simp
    also have "\<dots> = dot (take (k + 1) a) (drop (?n2 - 1 - k) w)"
      using left by simp
    also have "\<dots> = (\<Sum>t<k + 1. a ! (0 + t) * w ! (?n2 - 1 - k + t))"
    proof -
      have "min (length (take (k + 1) a)) (length (drop (?n2 - 1 - k) w)) = k + 1"
        using left wa by auto
      then show ?thesis
        unfolding dot_sum_nth using left by simp
    qed
    also have "\<dots> = (\<Sum>j<?n1. if j \<le> k \<and> k - j < ?n2
                              then a ! j * w ! (?n2 - 1 - (k - j)) else 0)"
      using left wa by (intro conv_window_sum) auto
    finally show ?thesis .
  next
    case mid
    let ?i = "k - (?n2 - 1)"
    have i: "?i < ?n1 - ?n2 + 1" using mid w1 wa by linarith
    have "correlate_full a w ! k
          = map (\<lambda>i. dot (take ?n2 (drop i a)) w) [0..<?n1 - ?n2 + 1]
              ! (k - length (map (\<lambda>i. dot (take (i + 1) a) (drop (?n2 - 1 - i) w)) [0..<?n2 - 1]))"
      unfolding correlate_full_def Let_def
      using mid i by (intro nth_three_runs(2)) (simp_all del: upt_Suc)
    also have "\<dots> = dot (take ?n2 (drop ?i a)) w"
      using i by (simp del: upt_Suc)
    also have "\<dots> = (\<Sum>t<?n2. a ! (?i + t) * w ! (0 + t))"
    proof -
      have "min (length (take ?n2 (drop ?i a))) (length w) = ?n2"
        using mid w1 wa by auto
      then show ?thesis
        unfolding dot_sum_nth using mid w1 wa by simp
    qed
    also have "\<dots> = (\<Sum>j<?n1. if j \<le> k \<and> k - j < ?n2
                              then a ! j * w ! (?n2 - 1 - (k - j)) else 0)"
      using mid w1 wa by (intro conv_window_sum) auto
    finally show ?thesis .
  next
    case right
    let ?i = "k - ?n1"
    let ?s = "?n1 - ?n2 + 1 + ?i"
    have i: "?i < ?n2 - 1" using right w1 wa k by linarith
    have "correlate_full a w ! k
          = map (\<lambda>i. dot (drop (?n1 - ?n2 + 1 + i) a) (take (?n2 - 1 - i) w)) [0..<?n2 - 1]
              ! (k - length (map (\<lambda>i. dot (take (i + 1) a) (drop (?n2 - 1 - i) w)) [0..<?n2 - 1])
                   - length (map (\<lambda>i. dot (take ?n2 (drop i a)) w) [0..<?n1 - ?n2 + 1]))"
      unfolding correlate_full_def Let_def
      using right w1 wa by (intro nth_three_runs(3)) (simp del: upt_Suc)
    also have "\<dots> = dot (drop ?s a) (take (?n2 - 1 - ?i) w)"
      using i right w1 wa by (simp del: upt_Suc)
    also have "\<dots> = (\<Sum>t<?n2 - 1 - ?i. a ! (?s + t) * w ! (0 + t))"
    proof -
      have "min (length (drop ?s a)) (length (take (?n2 - 1 - ?i) w)) = ?n2 - 1 - ?i"
        using right w1 wa k by auto
      then show ?thesis
        unfolding dot_sum_nth using right w1 wa k by simp
    qed
    also have "\<dots> = (\<Sum>j<?n1. if j \<le> k \<and> k - j < ?n2
                              then a ! j * w ! (?n2 - 1 - (k - j)) else 0)"
      using right w1 wa k by (intro conv_window_sum) auto
    finally show ?thesis .
  qed
qed

lemma conv_sum_commute:
  fixes a v :: "real list"
  shows "(\<Sum>j<n2. if j \<le> k \<and> k - j < n1 then v ! j * a ! (k - j) else 0)
         = (\<Sum>j<n1. if j \<le> k \<and> k - j < n2 then a ! j * v ! (k - j) else 0)"
proof -
  have "(\<Sum>j<n2. if j \<le> k \<and> k - j < n1 then v ! j * a ! (k - j) else 0)
        = (\<Sum>j\<in>{j \<in> {..<n2}. j \<le> k \<and> k - j < n1}. v ! j * a ! (k - j))"
    by (rule sum.inter_filter [symmetric]) simp
  also have "\<dots> = (\<Sum>j\<in>{j \<in> {..<n1}. j \<le> k \<and> k - j < n2}. a ! j * v ! (k - j))"
    by (rule sum.reindex_bij_witness [where i = "\<lambda>j. k - j" and j = "\<lambda>j. k - j"]) auto
  also have "\<dots> = (\<Sum>j<n1. if j \<le> k \<and> k - j < n2 then a ! j * v ! (k - j) else 0)"
    by (rule sum.inter_filter) simp
  finally show ?thesis .
qed

lemma correlate_full_rev_nth:
  assumes "1 \<le> length v" and "length v \<le> length a" and "k < length a + length v - 1"
  shows "correlate_full a (rev v) ! k
         = (\<Sum>j<length a. if j \<le> k \<and> k - j < length v then a ! j * v ! (k - j) else 0)"
proof -
  have "correlate_full a (rev v) ! k
        = (\<Sum>j<length a. if j \<le> k \<and> k - j < length (rev v)
                          then a ! j * rev v ! (length (rev v) - 1 - (k - j)) else 0)"
    using assms by (intro correlate_full_nth) simp_all
  also have "\<dots> = (\<Sum>j<length a. if j \<le> k \<and> k - j < length v
                              then a ! j * v ! (k - j) else 0)"
  proof (rule sum.cong)
    fix j
    show "(if j \<le> k \<and> k - j < length (rev v)
           then a ! j * rev v ! (length (rev v) - 1 - (k - j)) else 0)
          = (if j \<le> k \<and> k - j < length v then a ! j * v ! (k - j) else 0)"
    proof (cases "j \<le> k \<and> k - j < length v")
      case True
      then have "length v - 1 - (k - j) < length v" by linarith
      then have "rev v ! (length v - 1 - (k - j)) = v ! (length v - Suc (length v - 1 - (k - j)))"
        by (rule rev_nth)
      also have "length v - Suc (length v - 1 - (k - j)) = k - j"
        using True by linarith
      finally show ?thesis using True by simp
    next
      case False
      then show ?thesis by auto
    qed
  qed simp
  finally show ?thesis .
qed

lemma convolve_nth:
  assumes "convolve a v = Inr c" and "k < length c"
  shows "c ! k = (\<Sum>j<length a. if j \<le> k \<and> k - j < length v then a ! j * v ! (k - j) else 0)"
proof -
  have len: "length c = length a + length v - 1" and ne: "a \<noteq> []" "v \<noteq> []"
    using convolve_length [OF assms(1)] by simp_all
  have one: "1 \<le> length a" "1 \<le> length v" using ne by (simp_all add: Suc_leI)
  from assms(1) show ?thesis
  proof (cases rule: convolve_cases)
    case 1
    have "c ! k = (\<Sum>j<length v. if j \<le> k \<and> k - j < length a
                                 then v ! j * a ! (k - j) else 0)"
      unfolding 1(2) using 1(1) one assms(2) len
      by (intro correlate_full_rev_nth) simp_all
    then show ?thesis by (simp only: conv_sum_commute)
  next
    case 2
    show ?thesis
      unfolding 2(2) using 2(1) one assms(2) len
      by (intro correlate_full_rev_nth) simp_all
  qed
qed

subsection \<open>The absorption-rate array\<close>

lemma R_omega_0_Inr:
  assumes "Phi_om \<noteq> []" and "sigma_om \<noteq> []"
  shows "\<exists>c. convolve Phi_om sigma_om = Inr c \<and> R_omega_0 Phi_om sigma_om d = Inr (map (\<lambda>x. x * d) c)"
  using convolve_Inr [OF assms] by (simp add: R_omega_0_def)

lemma R_omega_0_cases:
  assumes "R_omega_0 Phi_om sigma_om d = Inr R"
  obtains c where "convolve Phi_om sigma_om = Inr c" and "R = map (\<lambda>x. x * d) c"
  using assms by (auto simp: R_omega_0_def split: sum.splits)

text \<open>
  C2. For non-empty profiles \<open>Phi\<close> and \<open>sigma\<close> and every step \<open>d_omega\<close>, the
  absorption-rate array has length \<open>len(Phi) + len(sigma) - 1\<close>, and its \<open>k\<close>-th entry is
  \<open>d_omega\<close> times the sum over \<open>j\<close> of \<open>Phi[j] * sigma[k - j]\<close>, the terms with \<open>k - j\<close>
  outside \<open>sigma\<close> being zero. (On an empty profile \<^verbatim>\<open>np.convolve\<close> raises.)
\<close>

theorem convolution_engine:
  assumes "Phi_om \<noteq> []" and "sigma_om \<noteq> []"
  shows "\<exists>R. R_omega_0 Phi_om sigma_om d = Inr R
           \<and> length R = length Phi_om + length sigma_om - 1
           \<and> (\<forall>k<length R.
                R ! k = d * (\<Sum>j<length Phi_om.
                               if j \<le> k \<and> k - j < length sigma_om
                               then Phi_om ! j * sigma_om ! (k - j) else 0))"
proof -
  obtain c where c: "convolve Phi_om sigma_om = Inr c"
    and R: "R_omega_0 Phi_om sigma_om d = Inr (map (\<lambda>x. x * d) c)"
    using R_omega_0_Inr [OF assms] by blast
  have "length (map (\<lambda>x. x * d) c) = length Phi_om + length sigma_om - 1"
    using convolve_length(1) [OF c] by simp
  moreover have "\<forall>k<length (map (\<lambda>x. x * d) c).
      map (\<lambda>x. x * d) c ! k
      = d * (\<Sum>j<length Phi_om. if j \<le> k \<and> k - j < length sigma_om
                                 then Phi_om ! j * sigma_om ! (k - j) else 0)"
    using convolve_nth [OF c] by (simp add: mult.commute)
  ultimately show ?thesis using R by blast
qed

theorem convolution_engine_witness:
  "[1, 2] \<noteq> ([] :: real list) \<and> [3, 4] \<noteq> ([] :: real list)
   \<and> R_omega_0 [1, 2] [3, 4] 2 = Inr [6, 20, 16]"
proof -
  obtain R where R: "R_omega_0 [1, 2] [3, 4] 2 = Inr R" and l: "length R = 3"
    and n: "\<forall>k<length R. R ! k = 2 * (\<Sum>j<length [1, 2 :: real].
                 if j \<le> k \<and> k - j < length [3, 4 :: real]
                 then [1, 2] ! j * [3, 4] ! (k - j) else 0)"
    using convolution_engine [of "[1, 2]" "[3, 4]" 2] by auto
  have "R ! 0 = 6" and "R ! 1 = 20" and "R ! 2 = 16"
    using n l by (simp_all add: lessThan_Suc numeral_2_eq_2 numeral_3_eq_3)
  then have "R = [6, 20, 16]"
    using l by (intro nth_equalityI) (auto simp: less_Suc_eq numeral_3_eq_3 numeral_2_eq_2)
  then show ?thesis using R by simp
qed

text \<open>
  C9. For \<open>Gamma_Ex > 0\<close>, a positive step and entrywise non-negative profiles, every entry
  of the absorption-rate array is non-negative, every denominator \<open>Gamma_Ex + 2 R\<close> is
  positive, and no entry of the excitation-fraction array is a division by zero. The array
  exists whenever both profiles are non-empty.
\<close>

theorem saturation_division_safe:
  assumes "0 < Gamma_Ex" and "0 < d"
    and "\<forall>x\<in>set Phi_om. 0 \<le> x" and "\<forall>y\<in>set sigma_om. 0 \<le> y"
  shows "(Phi_om \<noteq> [] \<and> sigma_om \<noteq> [] \<longrightarrow> (\<exists>R. R_omega_0 Phi_om sigma_om d = Inr R))
       \<and> (\<forall>R. R_omega_0 Phi_om sigma_om d = Inr R \<longrightarrow>
             (\<forall>r\<in>set R. 0 \<le> r \<and> 0 < Gamma_Ex + 2 * r)
           \<and> Frac_omega_0 Gamma_Ex R = map (\<lambda>r. Some (r / (Gamma_Ex + 2 * r))) R)"
proof (intro conjI impI allI)
  assume "Phi_om \<noteq> [] \<and> sigma_om \<noteq> []"
  then show "\<exists>R. R_omega_0 Phi_om sigma_om d = Inr R"
    using R_omega_0_Inr by blast
next
  fix R assume R: "R_omega_0 Phi_om sigma_om d = Inr R"
  then obtain c where c: "convolve Phi_om sigma_om = Inr c" and Rc: "R = map (\<lambda>x. x * d) c"
    by (rule R_omega_0_cases)
  have "\<forall>z\<in>set c. 0 \<le> z"
    using convolve_nonneg [OF c assms(3,4)] .
  then have nn: "\<forall>r\<in>set R. 0 \<le> r"
    unfolding Rc using assms(2) by simp
  then show "\<forall>r\<in>set R. 0 \<le> r \<and> 0 < Gamma_Ex + 2 * r"
    using assms(1) by (auto intro: add_pos_nonneg)
  show "Frac_omega_0 Gamma_Ex R = map (\<lambda>r. Some (r / (Gamma_Ex + 2 * r))) R"
    unfolding Frac_omega_0_def using nn assms(1) by (simp add: Frac_bin_pos)
qed

theorem saturation_division_safe_witness:
  "R_omega_0 [1, 2] [3] 1 = Inr [3, 6] \<and> Frac_omega_0 1 [3, 6] = [Some (3 / 7), Some (6 / 13)]"
proof -
  have c: "convolve [1, 2] [3] = Inr [3, 6]"
    by (simp add: convolve_def correlate_full_def dot_def)
  have R: "R_omega_0 [1, 2] [3] 1 = Inr [3, 6]"
    by (simp add: R_omega_0_def c)
  have "(0::real) < 1" and "\<forall>x\<in>set [1, 2 :: real]. 0 \<le> x" and "\<forall>y\<in>set [3 :: real]. 0 \<le> y"
    by simp_all
  then have "\<forall>R. R_omega_0 [1, 2] [3] 1 = Inr R \<longrightarrow>
             (\<forall>r\<in>set R. 0 \<le> r \<and> 0 < 1 + 2 * r)
           \<and> Frac_omega_0 1 R = map (\<lambda>r. Some (r / (1 + 2 * r))) R"
    using saturation_division_safe [of 1 1 "[1, 2]" "[3]"] by blast
  then have "Frac_omega_0 1 [3, 6] = map (\<lambda>r. Some (r / (1 + 2 * r))) [3, 6]"
    using R by blast
  then show ?thesis using R by simp
qed

section \<open>The spectral profiles\<close>

lemma Lorentz_Inr:
  assumes "Gamma \<noteq> 0"
  shows "Lorentz xs c Gamma
         = Inr (map (\<lambda>w. 1 / (pi * (Gamma / 2)) * 1 / (1 + ((w - c) / (Gamma / 2))\<^sup>2)) xs)"
  using assms by (simp add: Lorentz_def)

lemma Lorentz_cases:
  assumes "Lorentz xs c Gamma = Inr l"
  shows "Gamma \<noteq> 0"
    and "l = map (\<lambda>w. 1 / (pi * (Gamma / 2)) * 1 / (1 + ((w - c) / (Gamma / 2))\<^sup>2)) xs"
    and "length l = length xs"
  using assms by (auto simp: Lorentz_def split: if_splits)

lemma Lorentz_entry_pos:
  fixes Gamma :: real
  assumes "0 < Gamma"
  shows "0 < 1 / (pi * (Gamma / 2)) * 1 / (1 + ((w - c) / (Gamma / 2))\<^sup>2)"
proof -
  have "0 < 1 / (pi * (Gamma / 2)) * 1"
    using assms by simp
  moreover have "0 < 1 + ((w - c) / (Gamma / 2))\<^sup>2"
    by (rule add_pos_nonneg) simp_all
  ultimately show ?thesis by (rule divide_pos_pos)
qed

lemma Lorentz_pos:
  assumes "0 < Gamma"
  shows "\<exists>l. Lorentz xs c Gamma = Inr l \<and> length l = length xs \<and> (\<forall>x\<in>set l. 0 < x)"
proof -
  have "Gamma \<noteq> 0" using assms by simp
  then show ?thesis
    unfolding Lorentz_Inr [OF \<open>Gamma \<noteq> 0\<close>] using Lorentz_entry_pos [OF assms] by simp
qed

lemma cross_section_entry:
  fixes Gamma_H :: real
  assumes "0 < Gamma_H"
  shows "sigma * (pi * Gamma_H / 2) * (1 / (pi * (Gamma_H / 2)) * 1 / (1 + ((w - 0) / (Gamma_H / 2))\<^sup>2))
         = sigma / (1 + (w / (Gamma_H / 2))\<^sup>2)"
  using assms by simp

lemma sigma_omega_0_Inr:
  assumes "0 < Gamma_H"
  shows "sigma_omega_0 sigma om0 Gamma_H
         = Inr (map (\<lambda>w. sigma / (1 + (w / (Gamma_H / 2))\<^sup>2)) om0)"
proof -
  have "Gamma_H \<noteq> 0" using assms by simp
  then show ?thesis
    unfolding sigma_omega_0_def Lorentz_Inr [OF \<open>Gamma_H \<noteq> 0\<close>]
    by (simp add: cross_section_entry [OF assms] del: diff_zero)
qed

lemma cross_section_le_peak:
  fixes sigma :: real
  assumes "0 \<le> sigma"
  shows "sigma / (1 + (w / g)\<^sup>2) \<le> sigma"
proof -
  have p: "0 < 1 + (w / g)\<^sup>2" by (rule add_pos_nonneg) simp_all
  have "1 \<le> 1 + (w / g)\<^sup>2" by simp
  then have "sigma * 1 \<le> sigma * (1 + (w / g)\<^sup>2)"
    using assms by (rule mult_left_mono)
  then show ?thesis
    using p by (simp add: pos_divide_le_eq)
qed

lemma cross_section_eq_peak:
  fixes sigma :: real
  assumes "sigma \<noteq> 0" and "g \<noteq> 0"
  shows "sigma / (1 + (w / g)\<^sup>2) = sigma \<longleftrightarrow> w = 0"
proof -
  have p: "1 + (w / g)\<^sup>2 \<noteq> 0"
    by (metis add_nonneg_eq_0_iff zero_le_one zero_le_power2 zero_neq_one)
  have "sigma / (1 + (w / g)\<^sup>2) = sigma \<longleftrightarrow> sigma = sigma * (1 + (w / g)\<^sup>2)"
    using p by (simp add: divide_eq_eq)
  also have "\<dots> \<longleftrightarrow> (w / g)\<^sup>2 = 0"
    using assms(1) by (simp add: algebra_simps)
  also have "\<dots> \<longleftrightarrow> w = 0"
    using assms(2) by simp
  finally show ?thesis .
qed

text \<open>
  C10, as stated, fails at \<open>Gamma_L = Gamma_H = 1\<close> with \<open>sigma = 1\<close>: zero offset is not
  a sample of the atomic axis (it would be sample number 150001.5), so the resonant
  cross-section \<open>sigma\<close> is not an entry of the cross-section array, let alone its
  maximum entry.
\<close>

theorem peak_not_an_entry_counterexample:
  "\<not> isl (grid_builder 1 1)
   \<and> \<not> isl (sigma_omega_0 1 (omega_0 (projr (grid_builder 1 1))) 1)
   \<and> 1 \<notin> set (projr (sigma_omega_0 1 (omega_0 (projr (grid_builder 1 1))) 1))"
proof -
  let ?om0 = "omega_0 (projr (grid_builder 1 1))"
  have s: "sigma_omega_0 1 ?om0 1 = Inr (map (\<lambda>w. 1 / (1 + (w / (1 / 2))\<^sup>2)) ?om0)"
    by (rule sigma_omega_0_Inr) simp
  have "1 \<notin> set (map (\<lambda>w::real. 1 / (1 + (w / (1 / 2))\<^sup>2)) ?om0)"
  proof
    assume "1 \<in> set (map (\<lambda>w::real. 1 / (1 + (w / (1 / 2))\<^sup>2)) ?om0)"
    then obtain i where i: "i < length ?om0" and e: "1 / (1 + (?om0 ! i / (1 / 2))\<^sup>2) = (1::real)"
      by (auto simp: in_set_conv_nth)
    have "?om0 ! i = 0"
      using e cross_section_eq_peak [of 1 "1 / 2" "?om0 ! i"] by simp
    moreover have "?om0 ! i = - 3 / 2 + real i / 100001"
      using i unit_grid(4) unit_grid(6) [of i] by simp
    ultimately have "2 * real i = 300003" by simp
    then have "real (2 * i) = real 300003" by simp
    then have "2 * i = 300003" by (simp only: of_nat_eq_iff)
    then show False by presburger
  qed
  then show ?thesis using s unit_grid(1) by simp
qed

text \<open>
  C10, amended. For \<open>Gamma_H > 0\<close> the prefactor \<open>pi Gamma_H / 2\<close> cancels the peak height
  of the Lorentzian: the cross-section profile at zero offset is \<open>sigma\<close> exactly. Over any
  axis the profile is defined; for \<open>sigma \<ge> 0\<close> no entry exceeds \<open>sigma\<close>, and an entry
  equals a non-zero \<open>sigma\<close> exactly where the axis has a sample at zero offset.
\<close>

theorem cross_section_peak:
  assumes "0 < Gamma_H"
  shows "sigma_omega_0 sigma [0] Gamma_H = Inr [sigma]
       \<and> (\<exists>l. sigma_omega_0 sigma om0 Gamma_H = Inr l \<and> length l = length om0
              \<and> (0 \<le> sigma \<longrightarrow> (\<forall>x\<in>set l. x \<le> sigma))
              \<and> (sigma \<noteq> 0 \<longrightarrow> (\<forall>i<length om0. l ! i = sigma \<longleftrightarrow> om0 ! i = 0)))"
proof -
  have g: "Gamma_H / 2 \<noteq> 0" using assms by simp
  have "sigma_omega_0 sigma [0] Gamma_H = Inr [sigma]"
    unfolding sigma_omega_0_Inr [OF assms] by simp
  moreover have "0 \<le> sigma \<longrightarrow>
      (\<forall>x\<in>set (map (\<lambda>w. sigma / (1 + (w / (Gamma_H / 2))\<^sup>2)) om0). x \<le> sigma)"
    using cross_section_le_peak by auto
  moreover have "sigma \<noteq> 0 \<longrightarrow>
      (\<forall>i<length om0. map (\<lambda>w. sigma / (1 + (w / (Gamma_H / 2))\<^sup>2)) om0 ! i = sigma
                         \<longleftrightarrow> om0 ! i = 0)"
    using cross_section_eq_peak [OF _ g] by simp
  ultimately show ?thesis
    unfolding sigma_omega_0_Inr [OF assms, of sigma om0] by simp
qed

theorem cross_section_peak_witness:
  "sigma_omega_0 2 [0] 2 = Inr [2] \<and> sigma_omega_0 2 [0, 1] 2 = Inr [2, 1]"
proof -
  have "sigma_omega_0 2 [0, 1] 2 = Inr [2, 1]"
    unfolding sigma_omega_0_Inr [of 2 2 "[0, 1]", simplified] by simp
  then show ?thesis
    using cross_section_peak [of 2 2 "[0, 1]"] by simp
qed

section \<open>The inhomogeneous integrator\<close>

lemma np_sum_Some: "np_sum (map Some zs) = Some (sum_list zs)"
  by (induction zs) simp_all

lemma map2_Some:
  assumes "length xs = length ys"
  shows "map2 (\<lambda>x y. map_option ((*) x) y) xs (map Some ys) = map Some (map2 (*) xs ys)"
  using assms by (induction xs ys rule: list_induct2) simp_all

lemma array_mul_finite:
  assumes "length xs = length ys"
  shows "array_mul xs (map Some ys) = Inr (map Some (map2 (*) xs ys))"
  using assms by (simp add: array_mul_def map2_Some)

lemma Frac_omega_0_finite:
  assumes "\<forall>r\<in>set R. Gamma_Ex + 2 * r \<noteq> 0"
  shows "Frac_omega_0 Gamma_Ex R = map Some (map (\<lambda>r. r / (Gamma_Ex + 2 * r)) R)"
  using assms by (simp add: Frac_omega_0_def Frac_bin_def)

lemma Gamma_Sc_value:
  assumes "length n = length R" and "\<forall>r\<in>set R. Gamma_Ex + 2 * r \<noteq> 0"
  shows "Gamma_Sc Gamma_Ex n d (Frac_omega_0 Gamma_Ex R)
         = Inr (Some (Gamma_Ex * dot (map (\<lambda>x. x * d) n) (map (\<lambda>r. r / (Gamma_Ex + 2 * r)) R)))"
proof -
  have "length (map (\<lambda>x. x * d) n) = length (map (\<lambda>r. r / (Gamma_Ex + 2 * r)) R)"
    using assms(1) by simp
  then have "array_mul (map (\<lambda>x. x * d) n) (Frac_omega_0 Gamma_Ex R)
             = Inr (map Some (map2 (*) (map (\<lambda>x. x * d) n) (map (\<lambda>r. r / (Gamma_Ex + 2 * r)) R)))"
    unfolding Frac_omega_0_finite [OF assms(2)] by (rule array_mul_finite)
  then show ?thesis
    unfolding Gamma_Sc_def dot_def by (simp only: sum.case np_sum_Some option.map)
qed

lemma N_Inhom_omega_0_Inr:
  assumes "Gamma_In \<noteq> 0"
  shows "N_Inhom_omega_0 N omt Gamma_In
         = Inr (map (\<lambda>w. N * (1 / (pi * (Gamma_In / 2)) * 1 / (1 + ((w - 0) / (Gamma_In / 2))\<^sup>2))) omt)"
  unfolding N_Inhom_omega_0_def Lorentz_Inr [OF assms] by (simp add: comp_def)

text \<open>
  C7. For positive \<open>Gamma_Ex\<close> and \<open>Gamma_In\<close>, a rate array as long as the combined axis
  and with no vanishing denominator \<open>Gamma_Ex + 2 R\<close> (both hold in the pipeline), and every
  step and atom count: the atom density is \<open>n[i] = N * L(omega_tot[i]; 0, Gamma_In)\<close> with
  \<open>L\<close> the normalised Lorentzian centred on the inhomogeneous peak (offset zero), and the
  scattering rate is \<open>Gamma_Ex\<close> times the sum over all bins of \<open>n[i] * P_Ex[i] * d_omega\<close>,
  where \<open>P_Ex[i] = (R[i] / Gamma_Ex) / (1 + 2 R[i] / Gamma_Ex)\<close>.
\<close>

theorem inhomogeneous_integrator:
  assumes "0 < Gamma_Ex" and "0 < Gamma_In"
    and "length R = length omt" and "\<forall>r\<in>set R. Gamma_Ex + 2 * r \<noteq> 0"
  shows "\<exists>n. N_Inhom_omega_0 N omt Gamma_In = Inr n \<and> length n = length omt
       \<and> (\<forall>i<length omt.
            n ! i = N * ((1 / pi) * (Gamma_In / 2) / ((omt ! i - 0)\<^sup>2 + (Gamma_In / 2)\<^sup>2)))
       \<and> Gamma_Sc Gamma_Ex n d (Frac_omega_0 Gamma_Ex R)
           = Inr (Some (Gamma_Ex *
               (\<Sum>i<length omt. n ! i * ((R ! i / Gamma_Ex) / (1 + 2 * R ! i / Gamma_Ex)) * d)))"
proof -
  let ?n = "map (\<lambda>w. N * (1 / (pi * (Gamma_In / 2)) * 1 / (1 + ((w - 0) / (Gamma_In / 2))\<^sup>2))) omt"
  have gi: "Gamma_In \<noteq> 0" "Gamma_In / 2 \<noteq> 0" using assms(2) by simp_all
  have n: "N_Inhom_omega_0 N omt Gamma_In = Inr ?n"
    using gi(1) by (rule N_Inhom_omega_0_Inr)
  have len: "length ?n = length omt" by simp
  have entry: "\<forall>i<length omt.
      ?n ! i = N * ((1 / pi) * (Gamma_In / 2) / ((omt ! i - 0)\<^sup>2 + (Gamma_In / 2)\<^sup>2))"
    by (simp only: nth_map Lorentz_term [OF gi(2)]) simp
  have "Gamma_Sc Gamma_Ex ?n d (Frac_omega_0 Gamma_Ex R)
        = Inr (Some (Gamma_Ex * dot (map (\<lambda>x. x * d) ?n) (map (\<lambda>r. r / (Gamma_Ex + 2 * r)) R)))"
    using assms(3,4) by (intro Gamma_Sc_value) simp_all
  also have "dot (map (\<lambda>x. x * d) ?n) (map (\<lambda>r. r / (Gamma_Ex + 2 * r)) R)
             = (\<Sum>i<length omt. ?n ! i * ((R ! i / Gamma_Ex) / (1 + 2 * R ! i / Gamma_Ex)) * d)"
    unfolding dot_sum_nth using assms(3)
    by (simp only: sat_form [OF assms(1)] length_map min.idem)
       (rule sum.cong, simp_all add: mult_ac)
  finally show ?thesis using n len entry by blast
qed

theorem inhomogeneous_integrator_witness:
  "N_Inhom_omega_0 pi [0, 1] 2 = Inr [1, 1 / 2]
   \<and> Gamma_Sc 1 [1, 1 / 2] 2 (Frac_omega_0 1 [1, 2]) = Inr (Some (16 / 15))"
proof -
  have "(0::real) < 1" and "(0::real) < 2" and "length [1, 2 :: real] = length [0, 1 :: real]"
    and "\<forall>r\<in>set [1, 2 :: real]. 1 + 2 * r \<noteq> 0"
    by simp_all
  then obtain n where n: "N_Inhom_omega_0 pi [0, 1] 2 = Inr n"
    and s: "Gamma_Sc 1 n 2 (Frac_omega_0 1 [1, 2])
           = Inr (Some (1 * (\<Sum>i<length [0, 1 :: real].
                 n ! i * (([1, 2] ! i / 1) / (1 + 2 * [1, 2] ! i / 1)) * 2)))"
    using inhomogeneous_integrator [of 1 2 "[1, 2]" "[0, 1]" pi 2] by blast
  have n': "n = [1, 1 / 2]"
    using n by (simp add: N_Inhom_omega_0_def Lorentz_def)
  show ?thesis
    using n s unfolding n' by (simp add: lessThan_Suc numeral_2_eq_2)
qed

section \<open>The pipeline as a whole\<close>

lemma sat_mono:
  fixes R :: real
  assumes "0 < G" and "0 \<le> R" and "R \<le> R'"
  shows "R / (G + 2 * R) \<le> R' / (G + 2 * R')"
proof (cases "R = R'")
  case True
  then show ?thesis by simp
next
  case False
  then have "R < R'" using assms(3) by simp
  then show ?thesis
    using sat_strict_mono [OF assms(1,2)] by (simp add: less_imp_le)
qed

lemma weighted_term_mono:
  fixes l x d G :: real
  assumes "0 \<le> l" and "0 \<le> x" and "0 < d" and "0 < G"
    and "0 \<le> N1" and "N1 \<le> N2" and "0 \<le> P1" and "P1 \<le> P2"
  shows "N1 * l * d * (P1 * x * d / (G + 2 * (P1 * x * d)))
         \<le> N2 * l * d * (P2 * x * d / (G + 2 * (P2 * x * d)))"
proof (rule mult_mono)
  have "N1 * l \<le> N2 * l" using assms(1,6) by (rule mult_right_mono [rotated])
  then show "N1 * l * d \<le> N2 * l * d" using assms(3) by (simp add: mult_right_mono)
  have r1: "0 \<le> P1 * x * d" using assms(2,3,7) by simp
  have "P1 * x \<le> P2 * x" using assms(2,8) by (rule mult_right_mono [rotated])
  then have r2: "P1 * x * d \<le> P2 * x * d" using assms(3) by (simp add: mult_right_mono)
  show "P1 * x * d / (G + 2 * (P1 * x * d)) \<le> P2 * x * d / (G + 2 * (P2 * x * d))"
    using assms(4) r1 r2 by (rule sat_mono)
  show "0 \<le> N2 * l * d" using assms(1,3,5,6) by simp
  show "0 \<le> P1 * x * d / (G + 2 * (P1 * x * d))" using assms(4) r1 by (rule sat_nonneg)
qed

lemma weighted_sum_mono:
  fixes d G :: real
  assumes "0 < d" and "0 < G" and "0 \<le> N1" and "N1 \<le> N2" and "0 \<le> P1" and "P1 \<le> P2"
  shows "(\<forall>l\<in>set lin. 0 \<le> l) \<Longrightarrow> (\<forall>x\<in>set c. 0 \<le> x) \<Longrightarrow>
         dot (map (\<lambda>x. x * d) (map ((*) N1) lin))
             (map (\<lambda>r. r / (G + 2 * r)) (map (\<lambda>x. x * d) (map ((*) P1) c)))
         \<le> dot (map (\<lambda>x. x * d) (map ((*) N2) lin))
               (map (\<lambda>r. r / (G + 2 * r)) (map (\<lambda>x. x * d) (map ((*) P2) c)))"
proof (induction lin c rule: list_induct2')
  case (4 l lin x c)
  have "N1 * l * d * (P1 * x * d / (G + 2 * (P1 * x * d)))
        \<le> N2 * l * d * (P2 * x * d / (G + 2 * (P2 * x * d)))"
    using 4(2,3) assms by (intro weighted_term_mono) simp_all
  moreover have "dot (map (\<lambda>x. x * d) (map ((*) N1) lin))
             (map (\<lambda>r. r / (G + 2 * r)) (map (\<lambda>x. x * d) (map ((*) P1) c)))
         \<le> dot (map (\<lambda>x. x * d) (map ((*) N2) lin))
               (map (\<lambda>r. r / (G + 2 * r)) (map (\<lambda>x. x * d) (map ((*) P2) c)))"
    using 4 by simp
  ultimately show ?case
    by (simp add: dot_def)
qed (simp_all add: dot_def)

lemma pipeline_value:
  assumes "0 < Gamma_L" and "0 < Gamma_H" and "0 < Gamma_In" and "0 < Gamma_Ex"
    and "0 \<le> sigma"
  shows "\<exists>d lin c. 0 < d \<and> (\<forall>l\<in>set lin. 0 \<le> l) \<and> (\<forall>x\<in>set c. 0 \<le> x)
       \<and> (\<forall>Phi N. 0 \<le> Phi \<longrightarrow>
            fluorescence Gamma_L Gamma_Ex Gamma_H Gamma_In Phi sigma N
            = Inr (Some (Gamma_Ex *
                dot (map (\<lambda>x. x * d) (map ((*) N) lin))
                    (map (\<lambda>r. r / (Gamma_Ex + 2 * r)) (map (\<lambda>x. x * d) (map ((*) Phi) c))))))"
proof -
  have "max Gamma_L Gamma_H \<noteq> 0" using assms(1,2) by auto
  then obtain g where g: "grid_builder Gamma_L Gamma_H = Inr g"
    using grid_builder_total by blast
  note p = grid_builder_parts [OF g]
  have d: "0 < d_omega g" unfolding p(1) using assms(1,2) by auto
  have ne: "omega g \<noteq> []" "omega_0 g \<noteq> []"
    using axis_props(1) [OF d assms(1) p(2)] axis_props(1) [OF d assms(2) p(3)] by simp_all
  obtain ll where ll: "Lorentz (omega g) 0 Gamma_L = Inr ll"
    and ll_len: "length ll = length (omega g)" and ll_pos: "\<forall>x\<in>set ll. 0 < x"
    using Lorentz_pos [OF assms(1)] by blast
  let ?sg = "map (\<lambda>w. sigma / (1 + (w / (Gamma_H / 2))\<^sup>2)) (omega_0 g)"
  have sg: "sigma_omega_0 sigma (omega_0 g) Gamma_H = Inr ?sg"
    using assms(2) by (rule sigma_omega_0_Inr)
  have sg_nn: "\<forall>y\<in>set ?sg. 0 \<le> y"
    using assms(5) by (auto intro!: divide_nonneg_pos add_pos_nonneg)
  have ll_ne: "ll \<noteq> []" and sg_ne: "?sg \<noteq> []"
    using ne ll_len by auto
  obtain c where c: "convolve ll ?sg = Inr c"
    using convolve_Inr [OF ll_ne sg_ne] by blast
  have c_nn: "\<forall>x\<in>set c. 0 \<le> x"
    using convolve_nonneg [OF c] ll_pos sg_nn by (simp add: less_imp_le)
  have c_len: "length c = length (omega g) + length (omega_0 g) - 1"
    using convolve_length(1) [OF c] ll_len by simp
  obtain lin where lin: "Lorentz (omega_tot g) 0 Gamma_In = Inr lin"
    and lin_len: "length lin = length (omega_tot g)" and lin_pos: "\<forall>x\<in>set lin. 0 < x"
    using Lorentz_pos [OF assms(3)] by blast
  have "length (omega_tot g) = nat (int (length (omega g)) + int (length (omega_0 g)) - 1)"
    using p(4) by (rule linspace_length)
  then have len: "length lin = length c"
    using lin_len c_len by simp
  have val: "fluorescence Gamma_L Gamma_Ex Gamma_H Gamma_In Phi sigma N
      = Inr (Some (Gamma_Ex *
          dot (map (\<lambda>x. x * d_omega g) (map ((*) N) lin))
              (map (\<lambda>r. r / (Gamma_Ex + 2 * r))
                   (map (\<lambda>x. x * d_omega g) (map ((*) Phi) c)))))"
    if Phi: "0 \<le> Phi" for Phi N
  proof -
    let ?R = "map (\<lambda>x. x * d_omega g) (map ((*) Phi) c)"
    have 1: "Phi_omega Phi (omega g) Gamma_L = Inr (map ((*) Phi) ll)"
      by (simp add: Phi_omega_def ll)
    have 2: "R_omega_0 (map ((*) Phi) ll) ?sg (d_omega g) = Inr ?R"
      by (simp only: R_omega_0_def convolve_scale_left [OF c] sum.case)
    have 3: "N_Inhom_omega_0 N (omega_tot g) Gamma_In = Inr (map ((*) N) lin)"
      by (simp add: N_Inhom_omega_0_def lin)
    have "\<forall>r\<in>set ?R. 0 \<le> r"
      using c_nn Phi d by simp
    then have "\<forall>r\<in>set ?R. Gamma_Ex + 2 * r \<noteq> 0"
      using assms(4) by (metis add_pos_nonneg less_irrefl mult_nonneg_nonneg zero_le_numeral)
    then have 4: "Gamma_Sc Gamma_Ex (map ((*) N) lin) (d_omega g) (Frac_omega_0 Gamma_Ex ?R)
        = Inr (Some (Gamma_Ex *
            dot (map (\<lambda>x. x * d_omega g) (map ((*) N) lin))
                (map (\<lambda>r. r / (Gamma_Ex + 2 * r)) ?R)))"
      using len by (intro Gamma_Sc_value) simp_all
    show ?thesis
      unfolding fluorescence_def by (simp only: g 1 sg 2 3 4 sum.case)
  qed
  have "\<forall>l\<in>set lin. 0 \<le> l" using lin_pos by (simp add: less_imp_le)
  then show ?thesis using d c_nn val by blast
qed

text \<open>
  C5. With positive linewidths and a non-negative cross-section held fixed, the pipeline
  returns a finite scattering rate for every non-negative photon flux and atom count, and
  the rate does not decrease when the flux, the atom count, or both are increased.
\<close>

theorem scattering_rate_monotone:
  assumes "0 < Gamma_L" and "0 < Gamma_Ex" and "0 < Gamma_H" and "0 < Gamma_In"
    and "0 \<le> sigma" and "0 \<le> Phi1" and "Phi1 \<le> Phi2" and "0 \<le> N1" and "N1 \<le> N2"
  shows "\<exists>s1 s2. fluorescence Gamma_L Gamma_Ex Gamma_H Gamma_In Phi1 sigma N1 = Inr (Some s1)
               \<and> fluorescence Gamma_L Gamma_Ex Gamma_H Gamma_In Phi2 sigma N2 = Inr (Some s2)
               \<and> s1 \<le> s2"
proof -
  obtain d lin c where d: "0 < d" and lin: "\<forall>l\<in>set lin. 0 \<le> l" and c: "\<forall>x\<in>set c. 0 \<le> x"
    and val: "\<And>Phi N. 0 \<le> Phi \<Longrightarrow>
            fluorescence Gamma_L Gamma_Ex Gamma_H Gamma_In Phi sigma N
            = Inr (Some (Gamma_Ex *
                dot (map (\<lambda>x. x * d) (map ((*) N) lin))
                    (map (\<lambda>r. r / (Gamma_Ex + 2 * r)) (map (\<lambda>x. x * d) (map ((*) Phi) c)))))"
    using pipeline_value [OF assms(1,3,4,2,5)] by blast
  have "0 \<le> Phi2" using assms(6,7) by simp
  have "dot (map (\<lambda>x. x * d) (map ((*) N1) lin))
            (map (\<lambda>r. r / (Gamma_Ex + 2 * r)) (map (\<lambda>x. x * d) (map ((*) Phi1) c)))
        \<le> dot (map (\<lambda>x. x * d) (map ((*) N2) lin))
              (map (\<lambda>r. r / (Gamma_Ex + 2 * r)) (map (\<lambda>x. x * d) (map ((*) Phi2) c)))"
    using d assms(2,8,9,6,7) lin c by (rule weighted_sum_mono)
  then have "Gamma_Ex * dot (map (\<lambda>x. x * d) (map ((*) N1) lin))
            (map (\<lambda>r. r / (Gamma_Ex + 2 * r)) (map (\<lambda>x. x * d) (map ((*) Phi1) c)))
        \<le> Gamma_Ex * dot (map (\<lambda>x. x * d) (map ((*) N2) lin))
              (map (\<lambda>r. r / (Gamma_Ex + 2 * r)) (map (\<lambda>x. x * d) (map ((*) Phi2) c)))"
    using assms(2) by (simp add: mult_left_mono)
  then show ?thesis
    using val [OF assms(6), of N1] val [OF \<open>0 \<le> Phi2\<close>, of N2] by blast
qed

theorem scattering_rate_monotone_witness:
  "\<exists>s1 s2. fluorescence 1 1 1 1 0 1 1 = Inr (Some s1)
          \<and> fluorescence 1 1 1 1 1 1 2 = Inr (Some s2) \<and> s1 \<le> s2"
  using scattering_rate_monotone [of 1 1 1 1 1 0 1 1 2] by simp

lemma dot_zero_right: "dot xs (map (\<lambda>y. 0) ys) = 0"
  unfolding dot_def by (induction xs ys rule: list_induct2') simp_all

lemma no_flux_no_fluorescence:
  assumes "0 < Gamma_L" and "0 < Gamma_H" and "0 < Gamma_In" and "0 < Gamma_Ex"
    and "0 \<le> sigma"
  shows "fluorescence Gamma_L Gamma_Ex Gamma_H Gamma_In 0 sigma N = Inr (Some 0)"
proof -
  obtain d lin c where
    "\<forall>Phi N. 0 \<le> Phi \<longrightarrow>
            fluorescence Gamma_L Gamma_Ex Gamma_H Gamma_In Phi sigma N
            = Inr (Some (Gamma_Ex *
                dot (map (\<lambda>x. x * d) (map ((*) N) lin))
                    (map (\<lambda>r. r / (Gamma_Ex + 2 * r)) (map (\<lambda>x. x * d) (map ((*) Phi) c)))))"
    using pipeline_value [OF assms] by blast
  then have "fluorescence Gamma_L Gamma_Ex Gamma_H Gamma_In 0 sigma N
            = Inr (Some (Gamma_Ex *
                dot (map (\<lambda>x. x * d) (map ((*) N) lin))
                    (map (\<lambda>r. r / (Gamma_Ex + 2 * r)) (map (\<lambda>x. x * d) (map ((*) 0) c)))))"
    by simp
  also have "map (\<lambda>r. r / (Gamma_Ex + 2 * r)) (map (\<lambda>x. x * d) (map ((*) 0) c))
             = map (\<lambda>y. 0) c"
    by simp
  finally show ?thesis by (simp only: dot_zero_right mult_zero_right)
qed

text \<open>
  C6, as stated, fails: nothing in the pipeline checks its parameters. With the
  non-positive laser linewidth \<open>Gamma_L = -1\<close> (and \<open>Gamma_H = 1\<close>) the grid builder returns
  a grid; with a zero photon flux, which is what a zero beam power gives
  (\<^verbatim>\<open>Phi = (I * mW)/(h * nu)\<close>, \<^verbatim>\<open>I = P/np.pi/w**2\<close>), the pipeline builds the grid and
  runs to its end, returning the scattering rate \<open>0\<close>.
\<close>

theorem no_parameter_rejection_counterexample:
  "\<not> isl (grid_builder (- 1) 1) \<and> fluorescence 1 1 1 1 0 1 1 = Inr (Some 0)"
proof -
  have "\<exists>g. grid_builder (- 1) 1 = Inr g"
    by (rule grid_builder_total) simp
  then have "\<not> isl (grid_builder (- 1) 1)" by auto
  moreover have "fluorescence 1 1 1 1 0 1 1 = Inr (Some 0)"
    by (rule no_flux_no_fluorescence) simp_all
  ultimately show ?thesis by simp
qed

text \<open>
  C6, amended. The only input the grid builder rejects is one whose larger linewidth is
  zero, which makes the step of \<^verbatim>\<open>np.arange\<close> zero; on every other pair of linewidths,
  non-positive ones included, the frequency grid is constructed. Waist and power are not
  inputs of the grid builder.
\<close>

theorem grid_builder_rejects_zero_step_only:
  "isl (grid_builder Gamma_L Gamma_H) \<longleftrightarrow> max Gamma_L Gamma_H = 0"
proof (cases "max Gamma_L Gamma_H = 0")
  case True
  then show ?thesis by (simp add: grid_builder_zero_step)
next
  case False
  then have "\<exists>g. grid_builder Gamma_L Gamma_H = Inr g" by (rule grid_builder_total)
  then show ?thesis using False by auto
qed

end
